theory Spec2Isabelle
  imports Main "HOL-Library.Word"
begin

section \<open>Strings of the host language\<close>

text \<open>
  A JavaScript string is a sequence of 16-bit code units. Literals of the source are
  written through \<open>js\<close>, which maps an ASCII literal to its code units.
\<close>

type_synonym jschar = "16 word"
type_synonym jsstring = "jschar list"

definition js :: "string \<Rightarrow> jsstring" where
  "js s = map (\<lambda>c. of_nat (of_char c)) s"

definition BACKSLASH :: jschar where "BACKSLASH = 0x5C"
definition DQUOTE :: jschar where "DQUOTE = 0x22"
definition SQUOTE :: jschar where "SQUOTE = 0x27"
definition COMMA :: jschar where "COMMA = 0x2C"
definition SPACE :: jschar where "SPACE = 0x20"
definition GT :: jschar where "GT = 0x3E"
definition PLUS :: jschar where "PLUS = 0x2B"
definition TILDE :: jschar where "TILDE = 0x7E"
definition LF :: jschar where "LF = 0x0A"

text \<open>
  The line terminators of the language (LF, CR, LS, PS): the regular expression atom
  \<open>.\<close> matches every code unit but these.
\<close>

definition isLineTerminator :: "jschar \<Rightarrow> bool" where
  "isLineTerminator c = (c = 0x0A \<or> c = 0x0D \<or> c = 0x2028 \<or> c = 0x2029)"

text \<open>
  White space of the language; \<open>String.prototype.trim\<close> and the regular expression
  class \<open>\s\<close> both take white space and line terminators.
\<close>

definition isWhiteSpace :: "jschar \<Rightarrow> bool" where
  "isWhiteSpace c =
     (c = 0x09 \<or> c = 0x0B \<or> c = 0x0C \<or> c = 0x20 \<or> c = 0xA0 \<or> c = 0x1680 \<or>
      (0x2000 \<le> c \<and> c \<le> 0x200A) \<or> c = 0x202F \<or> c = 0x205F \<or> c = 0x3000 \<or> c = 0xFEFF)"

definition isSpaceClass :: "jschar \<Rightarrow> bool" where
  "isSpaceClass c = (isWhiteSpace c \<or> isLineTerminator c)"

definition trim :: "jsstring \<Rightarrow> jsstring" where
  "trim s = rev (dropWhile isSpaceClass (rev (dropWhile isSpaceClass s)))"

text \<open>Errors that reach the caller: the host's own exceptions and the one the code raises.\<close>

datatype error = SyntaxError | TypeError | InvalidSelector jsstring

section \<open>The quote-aware tokenizer\<close>

text \<open>
  \<open>selector.match(/\\?.|^$/g)\<close>: all matches, left to right. At each position an
  optional backslash followed by any code unit that is no line terminator; a backslash
  that is followed by a line terminator or by nothing is matched alone; at a line
  terminator nothing matches and the scan moves on by one code unit.
\<close>

fun regexTokens :: "jsstring \<Rightarrow> jsstring list" where
  "regexTokens [] = []"
| "regexTokens [c] = (if isLineTerminator c then [] else [[c]])"
| "regexTokens (c # d # cs) =
     (if c = BACKSLASH \<and> \<not> isLineTerminator d then [c, d] # regexTokens cs
      else if isLineTerminator c then regexTokens (d # cs)
      else [c] # regexTokens (d # cs))"

text \<open>
  The alternative \<open>^$\<close> matches the empty string, and only there. \<open>match\<close>
  returns \<open>null\<close> (here \<open>None\<close>) when there is no match at all.
\<close>

definition matchTokens :: "jsstring \<Rightarrow> jsstring list option" where
  "matchTokens selector =
     (if selector = [] then Some [[]]
      else (case regexTokens selector of [] \<Rightarrow> None | t # ts \<Rightarrow> Some (t # ts)))"

text \<open>
  The accumulator of the reduction. The two quote flags hold 0 or 1 in the source and are
  toggled by \<open>^= 1\<close>; they are booleans here.
\<close>

record splitAcc =
  strings :: "jsstring list"
  doubleQuote :: bool
  singleQuote :: bool

text \<open>\<open>acc.strings[acc.strings.length - 1] += char\<close>\<close>

definition appendToLast :: "jsstring list \<Rightarrow> jsstring \<Rightarrow> jsstring list" where
  "appendToLast ss t = (if ss = [] then ss else butlast ss @ [last ss @ t])"

definition splitStep :: "jsstring \<Rightarrow> splitAcc \<Rightarrow> jsstring \<Rightarrow> splitAcc" where
  "splitStep character acc char =
     (if char = [DQUOTE] \<and> \<not> singleQuote acc then
        acc\<lparr>doubleQuote := \<not> doubleQuote acc, strings := appendToLast (strings acc) char\<rparr>
      else if char = [SQUOTE] \<and> \<not> doubleQuote acc then
        acc\<lparr>singleQuote := \<not> singleQuote acc, strings := appendToLast (strings acc) char\<rparr>
      else if \<not> doubleQuote acc \<and> \<not> singleQuote acc \<and> char = character then
        acc\<lparr>strings := strings acc @ [[]]\<rparr>
      else
        acc\<lparr>strings := appendToLast (strings acc) char\<rparr>)"

definition splitInit :: splitAcc where
  "splitInit = \<lparr>strings = [[]], doubleQuote = False, singleQuote = False\<rparr>"

text \<open>Calling \<open>reduce\<close> on \<open>null\<close> raises a TypeError.\<close>

definition splitByUnquotedCharacter :: "jsstring \<Rightarrow> jsstring \<Rightarrow> error + jsstring list" where
  "splitByUnquotedCharacter selector character =
     (case matchTokens selector of
        None \<Rightarrow> Inl TypeError
      | Some chars \<Rightarrow> Inr (strings (foldl (splitStep character) splitInit chars)))"

text \<open>
  The tokenizer as the specification words it: the pieces between the occurrences of the
  delimiter that are neither quoted nor escaped. A backslash and the code unit after it
  form an atomic pair; a double quote toggles the double-quote state unless inside single
  quotes; a single quote toggles the single-quote state unless inside double quotes; the
  delimiter starts a new piece only when neither state is active.
\<close>

fun tokenizeSpec :: "jschar \<Rightarrow> bool \<Rightarrow> bool \<Rightarrow> jsstring \<Rightarrow> jsstring \<Rightarrow> jsstring list" where
  "tokenizeSpec d dq sq piece [] = [piece]"
| "tokenizeSpec d dq sq piece [c] =
     (if c = DQUOTE \<and> \<not> sq then [piece @ [c]]
      else if c = SQUOTE \<and> \<not> dq then [piece @ [c]]
      else if \<not> dq \<and> \<not> sq \<and> c = d then [piece, []]
      else [piece @ [c]])"
| "tokenizeSpec d dq sq piece (c # e # cs) =
     (if c = BACKSLASH then tokenizeSpec d dq sq (piece @ [c, e]) cs
      else if c = DQUOTE \<and> \<not> sq then tokenizeSpec d (\<not> dq) sq (piece @ [c]) (e # cs)
      else if c = SQUOTE \<and> \<not> dq then tokenizeSpec d dq (\<not> sq) (piece @ [c]) (e # cs)
      else if \<not> dq \<and> \<not> sq \<and> c = d then piece # tokenizeSpec d dq sq [] (e # cs)
      else tokenizeSpec d dq sq (piece @ [c]) (e # cs))"

text \<open>\<open>pieces.join(character)\<close>\<close>

fun joinWith :: "jsstring \<Rightarrow> jsstring list \<Rightarrow> jsstring" where
  "joinWith sep [] = []"
| "joinWith sep [p] = p"
| "joinWith sep (p # q # ps) = p @ sep @ joinWith sep (q # ps)"

section \<open>Selector strings\<close>

text \<open>
  \<open>selector.split('>>>')\<close>: the pieces between the occurrences of the marker, found
  left to right without overlap.
\<close>

fun splitBoundary :: "jsstring \<Rightarrow> jsstring list" where
  "splitBoundary [] = [[]]"
| "splitBoundary (c # cs) =
     (if c = GT \<and> take 2 cs = [GT, GT] then [] # splitBoundary (drop 2 cs)
      else (case splitBoundary cs of [] \<Rightarrow> [[c]] | p # ps \<Rightarrow> (c # p) # ps))"

definition isCombinator :: "jschar \<Rightarrow> bool" where
  "isCombinator c = (c = GT \<or> c = PLUS \<or> c = TILDE)"

text \<open>
  \<open>.replace(/\s*([>+~])\s*/g, '$1')\<close>: where a run of space characters (possibly
  empty) is followed by a combinator, the run, the combinator and the run of space
  characters after it are replaced by the combinator; every other code unit is kept.
\<close>

function normalizeCombinators :: "jsstring \<Rightarrow> jsstring" where
  "normalizeCombinators [] = []"
| "normalizeCombinators (c # cs) =
     (case dropWhile isSpaceClass (c # cs) of
        [] \<Rightarrow> c # normalizeCombinators cs
      | d # ds \<Rightarrow>
          if isCombinator d then d # normalizeCombinators (dropWhile isSpaceClass ds)
          else c # normalizeCombinators cs)"
  by pat_completeness auto
termination
proof (relation "measure length")
  show "wf (measure length)" by simp
next
  fix c :: jschar and cs :: jsstring
  show "(cs, c # cs) \<in> measure length" by simp
next
  fix c d :: jschar and cs ds :: jsstring
  assume d: "dropWhile isSpaceClass (c # cs) = d # ds"
  have "length (dropWhile isSpaceClass ds) \<le> length ds"
    by (rule length_dropWhile_le)
  moreover have "length (d # ds) \<le> length (c # cs)"
    using length_dropWhile_le [of isSpaceClass "c # cs"] d by simp
  ultimately show "(dropWhile isSpaceClass ds, c # cs) \<in> measure length" by simp
next
  fix c d :: jschar and cs ds :: jsstring
  show "(cs, c # cs) \<in> measure length" by simp
qed

text \<open>
  The components of one alternative of a stage:
  \<open>splitByUnquotedCharacter(sel.trim().replace(...), ' ').filter(Boolean)\<close>.
\<close>

definition refineSelector :: "jsstring \<Rightarrow> error + jsstring list" where
  "refineSelector sel =
     (case splitByUnquotedCharacter (normalizeCombinators (trim sel)) [SPACE] of
        Inl e \<Rightarrow> Inl e
      | Inr parts \<Rightarrow> Inr (filter (\<lambda>p. p \<noteq> []) parts))"

section \<open>The document tree and the host\<close>

text \<open>
  A node of the tree: its identity, its node type (1 element, 9 document, 11 document
  fragment, which a shadow root is), the shadow root attached to it, if any, and its
  element children in document order. Two nodes of one document differ in their identity,
  so that equality of nodes is the \<open>===\<close> of the source.
\<close>

datatype node = Node (nodeId: nat) (nodeType: nat) (shadowRoot: "node option") (children: "node list")

text \<open>\<open>root.querySelectorAll('*')\<close>: every element below the root, in tree order;
  the native query does not enter a shadow tree.\<close>

fun descendants :: "node \<Rightarrow> node list" where
  "descendants (Node i t sr cs) = concat (map (\<lambda>c. c # descendants c) cs)"

text \<open>All nodes of a tree, those of the shadow trees included.\<close>

fun nodesOf :: "node \<Rightarrow> node list" where
  "nodesOf (Node i t sr cs) =
     Node i t sr cs # (case sr of None \<Rightarrow> [] | Some s \<Rightarrow> nodesOf s) @ concat (map nodesOf cs)"

text \<open>\<open>element.parentNode\<close> and \<open>shadowRoot.host\<close>, read off the document \<open>u\<close>.\<close>

definition parentNode :: "node \<Rightarrow> node \<Rightarrow> node option" where
  "parentNode u n = find (\<lambda>p. n \<in> set (children p)) (nodesOf u)"

definition hostOf :: "node \<Rightarrow> node \<Rightarrow> node option" where
  "hostOf u n = find (\<lambda>p. shadowRoot p = Some n) (nodesOf u)"

text \<open>
  What the code takes from the host, each a parameter of its own:
  \<^item> the global \<open>document\<close>;
  \<^item> \<open>document.head\<close>: \<open>None\<close> when it is \<open>null\<close>, and otherwise whether it offers
    \<open>createShadowRoot\<close> or \<open>attachShadow\<close>;
  \<^item> the native selector grammar: a native call raises a SyntaxError on a string that
    the grammar rejects;
  \<^item> the native \<open>matches\<close> of an element;
  \<^item> the native single-match and all-match queries scoped to a root, for the strings
    of the grammar.
\<close>

record host =
  document :: node
  documentHead :: "bool option"
  validSelector :: "jsstring \<Rightarrow> bool"
  nativeMatches :: "node \<Rightarrow> jsstring \<Rightarrow> bool"
  nativeQuery :: "node \<Rightarrow> jsstring \<Rightarrow> node option"
  nativeQueryAll :: "node \<Rightarrow> jsstring \<Rightarrow> node list"

text \<open>\<open>el.matches(selector)\<close>\<close>

definition elMatches :: "host \<Rightarrow> node \<Rightarrow> jsstring \<Rightarrow> error + bool" where
  "elMatches h el selector =
     (if validSelector h selector then Inr (nativeMatches h el selector) else Inl SyntaxError)"

text \<open>\<open>root.querySelectorAll(selector)\<close> and \<open>root.querySelector(selector)\<close>\<close>

definition querySelectorAll :: "host \<Rightarrow> node \<Rightarrow> jsstring \<Rightarrow> error + node list" where
  "querySelectorAll h root selector =
     (if validSelector h selector then Inr (nativeQueryAll h root selector) else Inl SyntaxError)"

definition querySelector :: "host \<Rightarrow> node \<Rightarrow> jsstring \<Rightarrow> error + node option" where
  "querySelector h root selector =
     (if validSelector h selector then Inr (nativeQuery h root selector) else Inl SyntaxError)"


section \<open>Host-crossing parent resolution\<close>

definition getParentOrHost :: "host \<Rightarrow> node \<Rightarrow> node \<Rightarrow> node option" where
  "getParentOrHost h element root =
     (let parent = parentNode (document h) element in
      if parent \<noteq> None \<and> hostOf (document h) (the parent) \<noteq> None \<and> nodeType (the parent) = 11
      then hostOf (document h) (the parent)
      else if parent = Some root then None
      else parent)"

text \<open>
  The resolved parent as the specification words it: the structural parent, or the owning
  host in its place when the structural parent is the root node of a shadow sub-tree.
\<close>

definition resolvedParent :: "host \<Rightarrow> node \<Rightarrow> node option" where
  "resolvedParent h element =
     (case parentNode (document h) element of
        None \<Rightarrow> None
      | Some parent \<Rightarrow>
          if nodeType parent = 11 \<and> hostOf (document h) parent \<noteq> None
          then hostOf (document h) parent
          else Some parent)"

text \<open>
  Host-crossing parent resolution as the specification words it: the resolved parent, and
  the absent marker when the resolved parent is the bounding root or when there is no
  parent.
\<close>

definition hostCrossingParent :: "host \<Rightarrow> node \<Rightarrow> node \<Rightarrow> node option" where
  "hostCrossingParent h element root =
     (if resolvedParent h element = Some root then None else resolvedParent h element)"

section \<open>The tree collector\<close>

text \<open>
  \<open>collectElements(nodes)\<close> pushes every node of the list and, right after a node
  that has a shadow root, the elements collected from that shadow root. The result is
  the sequence of the pushes.
\<close>

fun maxSize :: "node list \<Rightarrow> nat" where
  "maxSize [] = 0"
| "maxSize (n # ns) = max (size n) (maxSize ns)"

lemma size_in_list: "c \<in> set cs \<Longrightarrow> size c \<le> size_list size cs"
  by (induction cs) auto

lemma size_descendants: "e \<in> set (descendants n) \<Longrightarrow> size e < size n"
proof (induction n arbitrary: e rule: descendants.induct)
  case (1 i t sr cs)
  then obtain c where c: "c \<in> set cs" "e = c \<or> e \<in> set (descendants c)" by auto
  then have "size e \<le> size c" using "1.IH" by (auto intro: less_imp_le)
  moreover have "size c < size (Node i t sr cs)"
    using size_in_list [OF c(1)] by simp
  ultimately show ?case by simp
qed

lemma size_shadowRoot: "shadowRoot n = Some s \<Longrightarrow> size s < size n"
  by (cases n) auto

lemma size_children: "c \<in> set (children n) \<Longrightarrow> size c < size n"
  using size_in_list [of c "children n"] by (cases n) auto

lemma size_nodesOf: "p \<in> set (nodesOf u) \<Longrightarrow> size p \<le> size u"
proof (induction u arbitrary: p rule: nodesOf.induct)
  case (1 i t sr cs)
  from "1.prems" consider "p = Node i t sr cs"
    | s where "sr = Some s" "p \<in> set (nodesOf s)"
    | c where "c \<in> set cs" "p \<in> set (nodesOf c)"
    by (auto split: option.splits)
  then show ?case
  proof cases
    case 1 then show ?thesis by simp
  next
    case 2
    then have "size p \<le> size s" using "1.IH"(1) by simp
    with 2 show ?thesis by simp
  next
    case 3
    then have "size p \<le> size c" using "1.IH"(2) by simp
    moreover have "size c < size (Node i t sr cs)"
      using size_in_list [OF 3(1)] by simp
    ultimately show ?thesis by simp
  qed
qed

lemma maxSize_less: "0 < k \<Longrightarrow> \<forall>e \<in> set ns. size e < k \<Longrightarrow> maxSize ns < k"
  by (induction ns) auto

lemma maxSize_descendants: "maxSize (descendants n) < size n"
  by (rule maxSize_less) (cases n, auto simp: size_descendants)

function collectElements :: "node list \<Rightarrow> node list" where
  "collectElements [] = []"
| "collectElements (node # nodes) =
     node #
     (case shadowRoot node of
        None \<Rightarrow> []
      | Some sr \<Rightarrow> collectElements (descendants sr)) @
     collectElements nodes"
  by pat_completeness auto
termination
proof (relation "measures [maxSize, length]")
  show "wf (measures [maxSize, length])" by simp
next
  fix node :: node and nodes :: "node list" and sr :: node
  assume "shadowRoot node = Some sr"
  then have "size sr < size node" by (rule size_shadowRoot)
  with maxSize_descendants [of sr]
  show "(descendants sr, node # nodes) \<in> measures [maxSize, length]"
    by (simp add: less_max_iff_disj)
next
  fix node :: node and nodes :: "node list"
  show "(nodes, node # nodes) \<in> measures [maxSize, length]" by auto
qed

text \<open>\<open>elements.filter(pred)\<close> and \<open>elements.find(pred)\<close> for a predicate that may
  raise: the first exception ends the traversal.\<close>

fun filterE :: "('a \<Rightarrow> error + bool) \<Rightarrow> 'a list \<Rightarrow> error + 'a list" where
  "filterE pred [] = Inr []"
| "filterE pred (x # xs) =
     (case pred x of
        Inl e \<Rightarrow> Inl e
      | Inr b \<Rightarrow> (case filterE pred xs of
                    Inl e \<Rightarrow> Inl e
                  | Inr ys \<Rightarrow> Inr (if b then x # ys else ys)))"

fun findE :: "('a \<Rightarrow> error + bool) \<Rightarrow> 'a list \<Rightarrow> error + 'a option" where
  "findE pred [] = Inr None"
| "findE pred (x # xs) =
     (case pred x of
        Inl e \<Rightarrow> Inl e
      | Inr b \<Rightarrow> if b then Inr (Some x) else findE pred xs)"

text \<open>
  The filter selector is \<open>None\<close> for \<open>null\<close> or \<open>undefined\<close>; the empty string is
  falsy as well, so that no filter is applied for it.
\<close>

definition gatherAllElementsXFind :: "host \<Rightarrow> jsstring option \<Rightarrow> node \<Rightarrow> error + node list" where
  "gatherAllElementsXFind h selector root =
     (let elements =
            (case shadowRoot root of
               None \<Rightarrow> []
             | Some sr \<Rightarrow> collectElements (descendants sr)) @
            collectElements (descendants root)
      in case selector of
           None \<Rightarrow> Inr elements
         | Some s \<Rightarrow> if s = [] then Inr elements else filterE (\<lambda>el. elMatches h el s) elements)"

text \<open>
  The collection as the specification words it: what lies below a node is the contents
  of the shadow tree it owns, then its own tree; each element is listed and immediately
  followed by what lies below it.
\<close>

function composedBelow :: "node \<Rightarrow> node list" where
  "composedBelow (Node i t sr cs) =
     (case sr of
        None \<Rightarrow> []
      | Some s \<Rightarrow> concat (map (\<lambda>c. c # composedBelow c) (children s))) @
     concat (map (\<lambda>c. c # composedBelow c) cs)"
  by pat_completeness auto
termination
proof (relation "measure size")
  show "wf (measure size)" by simp
next
  fix i t :: nat and sr :: "node option" and cs :: "node list" and s c :: node
  assume "sr = Some s" "c \<in> set (children s)"
  then have "size c < size s" "size s < size (Node i t sr cs)"
    by (auto dest: size_children)
  then show "(c, Node i t sr cs) \<in> measure size" by simp
next
  fix i t :: nat and sr :: "node option" and cs :: "node list" and c :: node
  assume "c \<in> set cs"
  then show "(c, Node i t sr cs) \<in> measure size"
    using size_in_list [of c cs] by simp
qed

text \<open>The elements reachable from a root through children and through shadow roots.\<close>

inductive reachable :: "node \<Rightarrow> node \<Rightarrow> bool" for root :: node where
  child: "e \<in> set (children root) \<Longrightarrow> reachable root e"
| shadowChild: "shadowRoot root = Some s \<Longrightarrow> e \<in> set (children s) \<Longrightarrow> reachable root e"
| below: "reachable root p \<Longrightarrow> e \<in> set (children p) \<Longrightarrow> reachable root e"
| belowShadow:
    "reachable root p \<Longrightarrow> shadowRoot p = Some s \<Longrightarrow> e \<in> set (children s) \<Longrightarrow> reachable root e"

section \<open>The ancestor-chain matcher\<close>

text \<open>\<open>refinedSelectors[position]\<close>, which is \<open>undefined\<close> (here \<open>None\<close>) out of range.\<close>

definition component :: "jsstring list \<Rightarrow> int \<Rightarrow> jsstring option" where
  "component refinedSelectors position =
     (if 0 \<le> position \<and> position < int (length refinedSelectors)
      then Some (refinedSelectors ! nat position)
      else None)"

text \<open>A native call converts \<open>undefined\<close> to the string \<open>undefined\<close>.\<close>

definition selectorArg :: "jsstring option \<Rightarrow> jsstring" where
  "selectorArg x = (case x of None \<Rightarrow> js ''undefined'' | Some s \<Rightarrow> s)"

text \<open>
  \<open>currentElement.matches ? currentElement.matches(...) : false\<close>: elements have a
  \<open>matches\<close> method; documents and shadow roots have none.
\<close>

definition isMatch :: "host \<Rightarrow> node \<Rightarrow> jsstring option \<Rightarrow> error + bool" where
  "isMatch h currentElement sel =
     (if nodeType currentElement = 1 then elMatches h currentElement (selectorArg sel)
      else Inr False)"

text \<open>One pass through the body of the loop: it returns, or goes on with a new cursor
  and a new current element.\<close>

datatype walk = Done "error + bool" | Continue int "node option"

definition matchElements_body :: "host \<Rightarrow> jsstring list \<Rightarrow> node \<Rightarrow> int \<Rightarrow> node \<Rightarrow> walk" where
  "matchElements_body h refinedSelectors root position currentElement =
     (case isMatch h currentElement (component refinedSelectors position) of
        Inl e \<Rightarrow> Done (Inl e)
      | Inr m \<Rightarrow>
          if m \<and> position = 0 then Done (Inr True)
          else Continue (if m then position - 1 else position)
                 (getParentOrHost h currentElement root))"

lemma getParentOrHost_size:
  assumes "getParentOrHost h e root = Some q"
  shows "size e < size q \<and> size q \<le> size (document h)"
proof -
  let ?u = "document h"
  show ?thesis
  proof (cases "parentNode ?u e")
    case None
    with assms show ?thesis by (simp add: getParentOrHost_def)
  next
    case (Some p)
    then have p: "e \<in> set (children p)" "p \<in> set (nodesOf ?u)"
      by (auto simp: parentNode_def find_Some_iff)
    then have ep: "size e < size p" and pu: "size p \<le> size ?u"
      by (auto dest: size_children size_nodesOf)
    show ?thesis
    proof (cases "hostOf ?u p \<noteq> None \<and> nodeType p = 11")
      case True
      with Some assms have q: "hostOf ?u p = Some q" by (simp add: getParentOrHost_def)
      then have "shadowRoot q = Some p" "q \<in> set (nodesOf ?u)"
        by (auto simp: hostOf_def find_Some_iff)
      then have "size p < size q" "size q \<le> size ?u"
        by (auto dest: size_shadowRoot size_nodesOf)
      with ep show ?thesis by simp
    next
      case False
      with Some assms have "q = p" by (auto simp: getParentOrHost_def split: if_splits)
      with ep pu show ?thesis by simp
    qed
  qed
qed

lemma matchElements_body_size:
  "matchElements_body h rs root position e = Continue position' (Some q) \<Longrightarrow>
   size e < size q \<and> size q \<le> size (document h)"
  by (auto simp: matchElements_body_def split: sum.splits if_splits dest: getParentOrHost_size)

text \<open>\<open>while (currentElement) { ... } return false\<close>\<close>

function matchElements_loop ::
  "host \<Rightarrow> jsstring list \<Rightarrow> node \<Rightarrow> int \<Rightarrow> node option \<Rightarrow> error + bool" where
  "matchElements_loop h refinedSelectors root position None = Inr False"
| "matchElements_loop h refinedSelectors root position (Some currentElement) =
     (case matchElements_body h refinedSelectors root position currentElement of
        Done r \<Rightarrow> r
      | Continue position' next \<Rightarrow> matchElements_loop h refinedSelectors root position' next)"
  by pat_completeness auto
termination
proof (relation "measure (\<lambda>(h, rs, root, position, cur).
         case cur of None \<Rightarrow> 0 | Some e \<Rightarrow> Suc (Suc (size (document h)) - size e))")
  show "wf (measure (\<lambda>(h, rs, root, position, cur).
         case cur of None \<Rightarrow> 0 | Some e \<Rightarrow> Suc (Suc (size (document h)) - size e)))"
    by simp
next
  fix h :: host and refinedSelectors :: "jsstring list" and root currentElement :: node
    and position x21 :: int and x22 :: "node option"
  assume b: "matchElements_body h refinedSelectors root position currentElement = Continue x21 x22"
  show "((h, refinedSelectors, root, x21, x22), (h, refinedSelectors, root, position, Some currentElement))
        \<in> measure (\<lambda>(h, rs, root, position, cur).
            case cur of None \<Rightarrow> 0 | Some e \<Rightarrow> Suc (Suc (size (document h)) - size e))"
  proof (cases x22)
    case None
    then show ?thesis by simp
  next
    case (Some q)
    with b matchElements_body_size [of h refinedSelectors root position currentElement x21 q]
    have "size currentElement < size q" "size q \<le> size (document h)" by simp_all
    then have "Suc (size (document h)) - size q < Suc (size (document h)) - size currentElement"
      by arith
    with Some show ?thesis by simp
  qed
qed

definition matchElements :: "host \<Rightarrow> jsstring list \<Rightarrow> int \<Rightarrow> node \<Rightarrow> node \<Rightarrow> error + bool" where
  "matchElements h refinedSelectors lastIndex root =
     (\<lambda>element. matchElements_loop h refinedSelectors root lastIndex (Some element))"

text \<open>The states in which the loop started at \<open>(position0, element0)\<close> enters its body.\<close>

inductive visits :: "host \<Rightarrow> jsstring list \<Rightarrow> node \<Rightarrow> int \<Rightarrow> node \<Rightarrow> int \<Rightarrow> node \<Rightarrow> bool"
  for h :: host and refinedSelectors :: "jsstring list" and root :: node
    and position0 :: int and element0 :: node where
  start: "visits h refinedSelectors root position0 element0 position0 element0"
| step: "visits h refinedSelectors root position0 element0 position currentElement \<Longrightarrow>
         matchElements_body h refinedSelectors root position currentElement
           = Continue position' (Some next) \<Longrightarrow>
         visits h refinedSelectors root position0 element0 position' next"

text \<open>
  The greedy walk as the specification words it, with the cursor an index into the
  component sequence: a match at cursor 0 accepts; a match at a later cursor moves the
  cursor down and the walk up; no match moves the walk up. The walk moves up by the
  host-crossing parent resolution of the specification, and ends without accepting where
  that gives the absent marker: at the bounding root, or where there is no parent.
\<close>

definition nativelyMatches :: "host \<Rightarrow> node \<Rightarrow> jsstring \<Rightarrow> bool" where
  "nativelyMatches h e c = (isMatch h e (Some c) = Inr True)"

inductive greedyWalk :: "host \<Rightarrow> jsstring list \<Rightarrow> node \<Rightarrow> nat \<Rightarrow> node \<Rightarrow> bool"
  for h :: host and components :: "jsstring list" and root :: node where
  accept: "nativelyMatches h e (components ! 0) \<Longrightarrow> greedyWalk h components root 0 e"
| advance: "nativelyMatches h e (components ! Suc k) \<Longrightarrow>
            hostCrossingParent h e root = Some p \<Longrightarrow>
            greedyWalk h components root k p \<Longrightarrow>
            greedyWalk h components root (Suc k) e"
| skip: "\<not> nativelyMatches h e (components ! k) \<Longrightarrow>
         hostCrossingParent h e root = Some p \<Longrightarrow>
         greedyWalk h components root k p \<Longrightarrow>
         greedyWalk h components root k e"

section \<open>The query orchestrator\<close>

text \<open>What a query returns: an element, \<open>null\<close>, or an array of elements.\<close>

datatype result = Element node | Null | Elements "node list"

text \<open>\<open>null\<close> is falsy; an element and an array, also the empty one, are truthy.\<close>

definition truthy :: "result \<Rightarrow> bool" where
  "truthy r = (r \<noteq> Null)"

definition ofOption :: "node option \<Rightarrow> result" where
  "ofOption x = (case x of None \<Rightarrow> Null | Some e \<Rightarrow> Element e)"

text \<open>\<open>array.reduce(f, initial)\<close> for a callback that may raise.\<close>

fun reduceE :: "('b \<Rightarrow> 'a \<Rightarrow> error + 'b) \<Rightarrow> 'b \<Rightarrow> 'a list \<Rightarrow> error + 'b" where
  "reduceE f acc [] = Inr acc"
| "reduceE f acc (x # xs) = (case f acc x of Inl e \<Rightarrow> Inl e | Inr acc' \<Rightarrow> reduceE f acc' xs)"

text \<open>
  The callback of the reduction over the comma-separated alternatives. \<open>concat\<close> is a
  method of arrays only.
\<close>

definition alternativeStep :: "host \<Rightarrow> bool \<Rightarrow> node \<Rightarrow> result \<Rightarrow> jsstring \<Rightarrow> error + result" where
  "alternativeStep h findMany root accumulator sel =
     (if \<not> findMany \<and> truthy accumulator then Inr accumulator
      else
        (case refineSelector sel of
           Inl e \<Rightarrow> Inl e
         | Inr refinedSelectors \<Rightarrow>
             (let lastIndex = int (length refinedSelectors) - 1 in
               (case gatherAllElementsXFind h (component refinedSelectors lastIndex) root of
                  Inl e \<Rightarrow> Inl e
                | Inr elementsToMatch \<Rightarrow>
                    (let matchedElements = matchElements h refinedSelectors lastIndex root in
                      (if findMany then
                         (case filterE matchedElements elementsToMatch of
                            Inl e \<Rightarrow> Inl e
                          | Inr found \<Rightarrow>
                              (case accumulator of
                                 Elements acc \<Rightarrow> Inr (Elements (acc @ found))
                               | Element el \<Rightarrow> Inl TypeError
                               | Null \<Rightarrow> Inl TypeError))
                       else
                         (case findE matchedElements elementsToMatch of
                            Inl e \<Rightarrow> Inl e
                          | Inr found \<Rightarrow> Inr (ofOption found))))))))"

text \<open>
  The test \<open>document.head.createShadowRoot || document.head.attachShadow\<close> reads a
  property of \<open>document.head\<close>, which raises a TypeError when \<open>document.head\<close> is
  \<open>null\<close>.
\<close>

definition queryInShadowDOM :: "host \<Rightarrow> jsstring \<Rightarrow> bool \<Rightarrow> node \<Rightarrow> error + result" where
  "queryInShadowDOM h selector findMany root =
     (case querySelector h root selector of
        Inl e \<Rightarrow> Inl e
      | Inr lightDomElement \<Rightarrow>
          (case documentHead h of
             None \<Rightarrow> Inl TypeError
           | Some capability \<Rightarrow>
               if capability then
                 if \<not> findMany \<and> lightDomElement \<noteq> None then Inr (ofOption lightDomElement)
                 else
                   (case splitByUnquotedCharacter selector [COMMA] of
                      Inl e \<Rightarrow> Inl e
                    | Inr splitSelectors \<Rightarrow>
                        reduceE (alternativeStep h findMany root)
                          (if findMany then Elements [] else Null) splitSelectors)
               else if findMany then
                 (case querySelectorAll h root selector of
                    Inl e \<Rightarrow> Inl e
                  | Inr found \<Rightarrow> Inr (Elements found))
               else Inr (ofOption lightDomElement)))"

definition querySelectorAllXFind :: "host \<Rightarrow> jsstring \<Rightarrow> node \<Rightarrow> error + result" where
  "querySelectorAllXFind h selector root = queryInShadowDOM h selector True root"

definition querySelectorXFind :: "host \<Rightarrow> jsstring \<Rightarrow> node \<Rightarrow> error + result" where
  "querySelectorXFind h selector root = queryInShadowDOM h selector False root"

text \<open>The console: the lines written by \<open>console.log\<close> and \<open>console.error\<close>, in order.\<close>

datatype consoleEntry = ConsoleLog jsstring | ConsoleError jsstring

type_synonym console = "consoleEntry list"

definition validateSelector :: "host \<Rightarrow> jsstring \<Rightarrow> error + unit" where
  "validateSelector h selector =
     (if validSelector h selector then Inr () else Inl (InvalidSelector selector))"

text \<open>
  The loop over the stages, on the stages still to resolve: \<open>i === selectors.length - 1\<close>
  holds when no stage is left after the current one, and the loop is left with
  \<open>return currentElement\<close> when none is left at all. The single-result query yields an
  element or \<open>null\<close>; an array could not serve as the next root.
\<close>

fun performQuery_loop ::
  "host \<Rightarrow> bool \<Rightarrow> jsstring list \<Rightarrow> node \<Rightarrow> console \<Rightarrow> (error + result) \<times> console" where
  "performQuery_loop h findMany [] currentElement out = (Inr (Element currentElement), out)"
| "performQuery_loop h findMany (sel # rest) currentElement out =
     (if rest = [] \<and> findMany then (querySelectorAllXFind h sel currentElement, out)
      else
        case querySelectorXFind h sel currentElement of
          Inl e \<Rightarrow> (Inl e, out)
        | Inr Null \<Rightarrow>
            (Inr (if findMany then Elements [] else Null),
             out @ [ConsoleError (js ''Selector '' @ sel @ js '' not found'')])
        | Inr (Element el) \<Rightarrow> performQuery_loop h findMany rest el out
        | Inr (Elements els) \<Rightarrow> (Inl TypeError, out))"

definition performQuery ::
  "host \<Rightarrow> jsstring \<Rightarrow> bool \<Rightarrow> node \<Rightarrow> console \<Rightarrow> (error + result) \<times> console" where
  "performQuery h selector findMany root out =
     (case validateSelector h selector of
        Inl e \<Rightarrow> (Inl e, out)
      | Inr _ \<Rightarrow> performQuery_loop h findMany (splitBoundary selector) root out)"

text \<open>Decimal digits of a number, as a template literal renders it.\<close>

fun decimal :: "nat \<Rightarrow> jsstring" where
  "decimal n = (if n < 10 then [of_nat (48 + n)] else decimal (n div 10) @ [of_nat (48 + n mod 10)])"

text \<open>\<open>elements.length\<close>, rendered in a template literal.\<close>

definition lengthText :: "result \<Rightarrow> error + jsstring" where
  "lengthText r =
     (case r of
        Elements els \<Rightarrow> Inr (decimal (length els))
      | Element el \<Rightarrow> Inr (js ''undefined'')
      | Null \<Rightarrow> Inl TypeError)"

definition xfind :: "host \<Rightarrow> jsstring \<Rightarrow> node \<Rightarrow> console \<Rightarrow> (error + result) \<times> console" where
  "xfind h selector root out =
     (case performQuery h selector False root out of
        (Inl e, out') \<Rightarrow> (Inl e, out')
      | (Inr element, out') \<Rightarrow>
          (Inr element,
           out' @ [ConsoleLog (js ''Found '' @ decimal (if truthy element then 1 else 0)
                     @ js '' element(s)'')]))"

definition xfindAll :: "host \<Rightarrow> jsstring \<Rightarrow> node \<Rightarrow> console \<Rightarrow> (error + result) \<times> console" where
  "xfindAll h selector root out =
     (case performQuery h selector True root out of
        (Inl e, out') \<Rightarrow> (Inl e, out')
      | (Inr elements, out') \<Rightarrow>
          (case lengthText elements of
             Inl e \<Rightarrow> (Inl e, out')
           | Inr n \<Rightarrow> (Inr elements, out' @ [ConsoleLog (js ''Found '' @ n @ js '' element(s)'')])))"

text \<open>A selector string holds the boundary marker.\<close>

fun containsBoundary :: "jsstring \<Rightarrow> bool" where
  "containsBoundary [] = False"
| "containsBoundary (c # cs) = ((c = GT \<and> take 2 cs = [GT, GT]) \<or> containsBoundary cs)"

text \<open>The stages of the list resolve, one after the other, to elements, the last of
  which is returned.\<close>

fun resolveStages :: "host \<Rightarrow> jsstring list \<Rightarrow> node \<Rightarrow> node option" where
  "resolveStages h [] current = Some current"
| "resolveStages h (sel # rest) current =
     (case querySelectorXFind h sel current of
        Inr (Element el) \<Rightarrow> resolveStages h rest el
      | _ \<Rightarrow> None)"

text \<open>
  A selector of a single component: not empty, and free of space characters, commas,
  quotes, backslashes and combinators.
\<close>

definition plainChar :: "jschar \<Rightarrow> bool" where
  "plainChar c =
     (\<not> isSpaceClass c \<and> c \<noteq> COMMA \<and> c \<noteq> DQUOTE \<and> c \<noteq> SQUOTE \<and> c \<noteq> BACKSLASH \<and> \<not> isCombinator c)"




section \<open>Example pages\<close>

text \<open>
  A document whose \<open>div\<close> owns a shadow tree:
  \<open>html(1) [ head(9), div(2) { #shadow-root(3) [ span(4) [ b(5) ] ] }, p(6) [ a(7), b(8) ] ]\<close>.
\<close>

definition exHead :: node where "exHead = Node 9 1 None []"
definition exB5 :: node where "exB5 = Node 5 1 None []"
definition exSpan :: node where "exSpan = Node 4 1 None [exB5]"
definition exShadow :: node where "exShadow = Node 3 11 None [exSpan]"
definition exDiv :: node where "exDiv = Node 2 1 (Some exShadow) []"
definition exA :: node where "exA = Node 7 1 None []"
definition exB :: node where "exB = Node 8 1 None []"
definition exP :: node where "exP = Node 6 1 None [exA, exB]"
definition exHtml :: node where "exHtml = Node 1 1 None [exHead, exDiv, exP]"
definition exDocument :: node where "exDocument = Node 0 9 None [exHtml]"

text \<open>A document without shadow trees:
  \<open>html(11) [ head(16), a(12), b(13), div(14) [ span(15) ] ]\<close>.\<close>

definition plHead :: node where "plHead = Node 16 1 None []"
definition plA :: node where "plA = Node 12 1 None []"
definition plB :: node where "plB = Node 13 1 None []"
definition plSpan :: node where "plSpan = Node 15 1 None []"
definition plDiv :: node where "plDiv = Node 14 1 None [plSpan]"
definition plHtml :: node where "plHtml = Node 11 1 None [plHead, plA, plB, plDiv]"
definition plDocument :: node where "plDocument = Node 10 9 None [plHtml]"

text \<open>A document whose head has been removed: \<open>html(21) [ b(22) ]\<close>.\<close>

definition nhB :: node where "nhB = Node 22 1 None []"
definition nhHtml :: node where "nhHtml = Node 21 1 None [nhB]"
definition nhDocument :: node where "nhDocument = Node 20 9 None [nhHtml]"

definition exTag :: "node \<Rightarrow> jsstring" where
  "exTag n =
     (if nodeId n = 1 \<or> nodeId n = 11 \<or> nodeId n = 21 then js ''html''
      else if nodeId n = 9 \<or> nodeId n = 16 then js ''head''
      else if nodeId n = 2 \<or> nodeId n = 14 then js ''div''
      else if nodeId n = 4 \<or> nodeId n = 15 then js ''span''
      else if nodeId n = 6 then js ''p''
      else if nodeId n = 7 \<or> nodeId n = 12 then js ''a''
      else if nodeId n = 5 \<or> nodeId n = 8 \<or> nodeId n = 13 \<or> nodeId n = 22 then js ''b''
      else [])"

text \<open>
  The answers of a host on these pages for the selectors used below. The grammar accepts
  the type selectors of the elements and two more, \<open>missing\<close> and \<open>target\<close>; the
  selector list \<open>b,a\<close>; \<open>div>span\<close> and \<open>div div>span\<close>; and \<open>:scope\<close>. As native
  parsers do, it rejects the empty string and a string with the boundary marker between
  its stages.

  An element matches its own type selector; \<open>div>span\<close> is matched by the span 15 only
  (the parent of the span 4 is a shadow root); \<open>div div>span\<close> by no element, there
  being no \<open>div\<close> below a \<open>div\<close>; \<open>:scope\<close> by every element, which is its own
  scoping root in \<open>matches\<close>.

  A query on a root returns the elements below the root that match, in tree order; for
  \<open>:scope\<close>, where the root of the query is the scoping root, it returns no element
  below an element or a shadow root, and the root element of a document.
\<close>

definition exValid :: "jsstring \<Rightarrow> bool" where
  "exValid s = (s \<in> {js ''html'', js ''head'', js ''div'', js ''span'', js ''p'', js ''a'',
                     js ''b'', js ''missing'', js ''target'', js ''b,a'', js ''div>span'',
                     js ''div div>span'', js '':scope''})"

definition exMatches :: "node \<Rightarrow> jsstring \<Rightarrow> bool" where
  "exMatches e s =
     (nodeType e = 1 \<and>
      (s = exTag e \<or>
       (s = js ''b,a'' \<and> (exTag e = js ''a'' \<or> exTag e = js ''b'')) \<or>
       (s = js ''div>span'' \<and> nodeId e = 15) \<or>
       s = js '':scope''))"

definition exQueryAll :: "node \<Rightarrow> jsstring \<Rightarrow> node list" where
  "exQueryAll root s =
     (if s = js '':scope'' then (if nodeType root = 9 then children root else [])
      else filter (\<lambda>e. exMatches e s) (descendants root))"

definition exQuery :: "node \<Rightarrow> jsstring \<Rightarrow> node option" where
  "exQuery root s = (case exQueryAll root s of [] \<Rightarrow> None | e # es \<Rightarrow> Some e)"

definition exHost :: host where
  "exHost = \<lparr>document = exDocument, documentHead = Some True, validSelector = exValid,
             nativeMatches = exMatches, nativeQuery = exQuery, nativeQueryAll = exQueryAll\<rparr>"

definition plHost :: host where
  "plHost = \<lparr>document = plDocument, documentHead = Some True, validSelector = exValid,
             nativeMatches = exMatches, nativeQuery = exQuery, nativeQueryAll = exQueryAll\<rparr>"

definition nhHost :: host where
  "nhHost = \<lparr>document = nhDocument, documentHead = None, validSelector = exValid,
             nativeMatches = exMatches, nativeQuery = exQuery, nativeQueryAll = exQueryAll\<rparr>"

section \<open>Properties of the tokenizer\<close>

lemma joinWith_snoc: "joinWith sep (ss @ [p]) = (if ss = [] then p else joinWith sep ss @ sep @ p)"
  by (induction sep ss rule: joinWith.induct) auto

lemma joinWith_appendToLast: "ss \<noteq> [] \<Longrightarrow> joinWith sep (appendToLast ss t) = joinWith sep ss @ t"
proof -
  assume ne: "ss \<noteq> []"
  then have "ss = butlast ss @ [last ss]" by simp
  then have "joinWith sep ss = (if butlast ss = [] then last ss else joinWith sep (butlast ss) @ sep @ last ss)"
    using joinWith_snoc [of sep "butlast ss" "last ss"] by simp
  with ne show ?thesis by (simp add: appendToLast_def joinWith_snoc)
qed

lemma splitStep_nonempty: "strings acc \<noteq> [] \<Longrightarrow> strings (splitStep ch acc t) \<noteq> []"
  by (simp add: splitStep_def appendToLast_def)

lemma splitStep_join:
  "strings acc \<noteq> [] \<Longrightarrow> joinWith ch (strings (splitStep ch acc t)) = joinWith ch (strings acc) @ t"
  by (simp add: splitStep_def joinWith_appendToLast joinWith_snoc)

lemma foldl_join:
  "strings acc \<noteq> [] \<Longrightarrow>
   joinWith ch (strings (foldl (splitStep ch) acc ts)) = joinWith ch (strings acc) @ concat ts"
  by (induction ts arbitrary: acc) (simp_all add: splitStep_join splitStep_nonempty)

lemma concat_regexTokens:
  "\<forall>c \<in> set s. \<not> isLineTerminator c \<Longrightarrow> concat (regexTokens s) = s"
  by (induction s rule: regexTokens.induct) auto

lemma regexTokens_nonempty:
  "\<forall>c \<in> set s. \<not> isLineTerminator c \<Longrightarrow> s \<noteq> [] \<Longrightarrow> regexTokens s \<noteq> []"
  by (induction s rule: regexTokens.induct) auto

lemma matchTokens_noLT:
  "\<forall>c \<in> set s. \<not> isLineTerminator c \<Longrightarrow> \<exists>ts. matchTokens s = Some ts \<and> concat ts = s"
  using concat_regexTokens [of s] regexTokens_nonempty [of s]
  by (auto simp: matchTokens_def split: list.splits)



lemma tokenizer_example:
  "splitByUnquotedCharacter (js ''a[data-x='' @ [DQUOTE] @ js ''1,2'' @ [DQUOTE] @ js ''],b'') [COMMA]
     = Inr [js ''a[data-x='' @ [DQUOTE] @ js ''1,2'' @ [DQUOTE] @ js '']'', js ''b'']"
  by (simp add: splitByUnquotedCharacter_def matchTokens_def splitInit_def splitStep_def
      appendToLast_def js_def isLineTerminator_def BACKSLASH_def DQUOTE_def SQUOTE_def COMMA_def)

text \<open>
  C5. The tokenizer is to split exactly on the unquoted, unescaped occurrences of the
  delimiter, for every input string. On an input with a line terminator the code does
  not: the line feed of \<open>a\nb,c\<close> is lost from the first piece, where the tokenizer of
  the specification keeps it, and on the input that consists of a line feed the code
  raises a TypeError.
\<close>

theorem tokenizer_loses_line_terminators:
  "splitByUnquotedCharacter (js ''a'' @ [LF] @ js ''b,c'') [COMMA] = Inr [js ''ab'', js ''c'']
   \<and> tokenizeSpec COMMA False False [] (js ''a'' @ [LF] @ js ''b,c'')
       = [js ''a'' @ [LF] @ js ''b'', js ''c'']
   \<and> splitByUnquotedCharacter [LF] [COMMA] = Inl TypeError"
  by (simp add: splitByUnquotedCharacter_def matchTokens_def splitInit_def splitStep_def
      appendToLast_def js_def isLineTerminator_def BACKSLASH_def DQUOTE_def SQUOTE_def COMMA_def
      LF_def)

text \<open>
  C10. For an input without line terminators and a delimiter of one character, joining
  the pieces of the tokenizer with the delimiter gives the input back.
\<close>

theorem tokenizer_join_roundtrip:
  assumes "\<forall>c \<in> set s. \<not> isLineTerminator c"
  shows "\<exists>pieces. splitByUnquotedCharacter s [d] = Inr pieces \<and> joinWith [d] pieces = s"
proof -
  from matchTokens_noLT [OF assms] obtain ts where ts: "matchTokens s = Some ts" "concat ts = s"
    by blast
  have "joinWith [d] (strings (foldl (splitStep [d]) splitInit ts))
      = joinWith [d] (strings splitInit) @ concat ts"
    by (rule foldl_join) (simp add: splitInit_def)
  with ts show ?thesis by (simp add: splitByUnquotedCharacter_def splitInit_def)
qed

theorem tokenizer_join_roundtrip_witness:
  "list_all (\<lambda>c. \<not> isLineTerminator c) (js ''a,b'' @ [DQUOTE] @ js ''c,d'' @ [DQUOTE])
   \<and> (\<exists>pieces. splitByUnquotedCharacter (js ''a,b'' @ [DQUOTE] @ js ''c,d'' @ [DQUOTE]) [COMMA] = Inr pieces
        \<and> joinWith [COMMA] pieces = js ''a,b'' @ [DQUOTE] @ js ''c,d'' @ [DQUOTE])"
proof -
  have h: "\<forall>c \<in> set (js ''a,b'' @ [DQUOTE] @ js ''c,d'' @ [DQUOTE]). \<not> isLineTerminator c"
    by (simp add: js_def isLineTerminator_def DQUOTE_def)
  from tokenizer_join_roundtrip [OF h, of COMMA] h show ?thesis
    by (simp only: list_all_iff)
qed


section \<open>Properties of the parent resolution\<close>

lemmas ex_defs =
  exHead_def exB5_def exSpan_def exShadow_def exDiv_def exA_def exB_def exP_def exHtml_def
  exDocument_def plHead_def plA_def plB_def plSpan_def plDiv_def plHtml_def plDocument_def
  nhB_def nhHtml_def nhDocument_def

lemmas exHost_defs =
  exHost_def plHost_def nhHost_def exValid_def exMatches_def exQueryAll_def exQuery_def
  exTag_def js_def

text \<open>
  Where the bounding root is not the host that owns the sub-tree directly around the
  element, the code resolves as the specification words it. No root without a sub-tree
  of its own, so no document and no sub-tree root, is such a host.
\<close>

lemma getParentOrHost_resolution:
  assumes "\<forall>parent. parentNode (document h) element = Some parent \<longrightarrow> nodeType parent = 11 \<longrightarrow>
             hostOf (document h) parent \<noteq> Some root"
  shows "getParentOrHost h element root = hostCrossingParent h element root"
proof (cases "parentNode (document h) element")
  case None
  then show ?thesis
    by (simp add: getParentOrHost_def hostCrossingParent_def resolvedParent_def)
next
  case (Some parent)
  show ?thesis
  proof (cases "nodeType parent = 11 \<and> hostOf (document h) parent \<noteq> None")
    case True
    with assms Some have "hostOf (document h) parent \<noteq> Some root" by simp
    with True Some show ?thesis
      by (simp add: getParentOrHost_def hostCrossingParent_def resolvedParent_def)
  next
    case False
    with Some show ?thesis
      by (auto simp: getParentOrHost_def hostCrossingParent_def resolvedParent_def)
  qed
qed

lemma hostOf_shadowRoot: "hostOf u p = Some owner \<Longrightarrow> shadowRoot owner = Some p"
  by (auto simp: hostOf_def find_Some_iff)

lemma getParentOrHost_unowned:
  "shadowRoot root = None \<Longrightarrow> getParentOrHost h element root = hostCrossingParent h element root"
  by (rule getParentOrHost_resolution) (auto dest: hostOf_shadowRoot)

text \<open>
  C6. The resolution is to return the absent marker when the resolved parent equals the
  bounding root. Where the bounding root is the host that owns the sub-tree directly
  around the element, the code does not. The \<open>span\<close> of the example lies directly below
  the shadow root of the \<open>div\<close>, so that its resolved parent is the \<open>div\<close>; with the
  \<open>div\<close> as the bounding root the resolution of the specification gives the absent
  marker, and the code returns the \<open>div\<close>.
\<close>

theorem getParentOrHost_returns_bounding_root:
  "parentNode exDocument exSpan = Some exShadow
   \<and> nodeType exShadow = 11
   \<and> hostOf exDocument exShadow = Some exDiv
   \<and> resolvedParent exHost exSpan = Some exDiv
   \<and> hostCrossingParent exHost exSpan exDiv = None
   \<and> getParentOrHost exHost exSpan exDiv = Some exDiv"
  by (simp add: getParentOrHost_def hostCrossingParent_def resolvedParent_def parentNode_def
      hostOf_def exHost_def ex_defs)


section \<open>Properties of the tree collector\<close>

lemma collectElements_append: "collectElements (xs @ ys) = collectElements xs @ collectElements ys"
  by (induction xs) auto

lemma collectElements_concat: "collectElements (concat xss) = concat (map collectElements xss)"
  by (induction xss) (auto simp: collectElements_append)

lemma collect_descendants:
  "collectElements (descendants n) = concat (map (\<lambda>c. c # composedBelow c) (children n))"
proof (induction n rule: measure_induct_rule [where f = size])
  case (less n)
  have "collectElements (c # descendants c) = c # composedBelow c" if c: "c \<in> set (children n)" for c
  proof -
    have cn: "size c < size n" using c by (rule size_children)
    have light: "collectElements (descendants c) = concat (map (\<lambda>d. d # composedBelow d) (children c))"
      using less [OF cn] .
    have sh: "collectElements (descendants s) = concat (map (\<lambda>d. d # composedBelow d) (children s))"
      if "shadowRoot c = Some s" for s
      using less [of s] size_shadowRoot [OF that] cn by simp
    show ?thesis
      by (cases c) (use light sh in \<open>auto split: option.splits\<close>)
  qed
  then have eq: "map (\<lambda>c. collectElements (c # descendants c)) (children n)
           = map (\<lambda>c. c # composedBelow c) (children n)"
    by (intro map_cong refl)
  have "descendants n = concat (map (\<lambda>c. c # descendants c) (children n))"
    by (cases n) simp
  then have "collectElements (descendants n)
           = concat (map collectElements (map (\<lambda>c. c # descendants c) (children n)))"
    by (simp only: collectElements_concat)
  also have "\<dots> = concat (map (\<lambda>c. collectElements (c # descendants c)) (children n))"
    by (simp only: map_map o_def)
  finally show ?case by (simp only: eq)
qed

lemma gather_elements:
  "(case shadowRoot root of None \<Rightarrow> [] | Some sr \<Rightarrow> collectElements (descendants sr)) @
   collectElements (descendants root) = composedBelow root"
  unfolding collect_descendants by (cases root) (simp split: option.splits)

lemma filterE_total: "filterE (\<lambda>x. Inr (P x)) xs = Inr (filter P xs)"
  by (induction xs) auto


lemma composedBelow_trans:
  "p \<in> set (composedBelow root) \<Longrightarrow> set (composedBelow p) \<subseteq> set (composedBelow root)"
proof (induction root rule: composedBelow.induct)
  case (1 i t sr cs)
  from "1.prems" consider s c where "sr = Some s" "c \<in> set (children s)" "p = c \<or> p \<in> set (composedBelow c)"
    | c where "c \<in> set cs" "p = c \<or> p \<in> set (composedBelow c)"
    by (auto split: option.splits)
  then show ?case
  proof cases
    case 1
    then have "set (composedBelow p) \<subseteq> set (composedBelow c)"
      using "1.IH"(1) by auto
    with 1 show ?thesis by auto
  next
    case 2
    then have "set (composedBelow p) \<subseteq> set (composedBelow c)"
      using "1.IH"(2) by auto
    with 2 show ?thesis by auto
  qed
qed

lemma composedBelow_unfold:
  "composedBelow n =
     (case shadowRoot n of None \<Rightarrow> [] | Some s \<Rightarrow> concat (map (\<lambda>c. c # composedBelow c) (children s))) @
     concat (map (\<lambda>c. c # composedBelow c) (children n))"
  by (cases n) simp

lemma child_composed: "e \<in> set (children p) \<Longrightarrow> e \<in> set (composedBelow p)"
  by (subst composedBelow_unfold) auto

lemma shadowChild_composed:
  "shadowRoot p = Some s \<Longrightarrow> e \<in> set (children s) \<Longrightarrow> e \<in> set (composedBelow p)"
  by (subst composedBelow_unfold) auto

lemma reachable_composed: "reachable root e \<Longrightarrow> e \<in> set (composedBelow root)"
proof (induction rule: reachable.induct)
  case (child e) then show ?case by (rule child_composed)
next
  case (shadowChild s e) then show ?case by (rule shadowChild_composed)
next
  case (below p e)
  then show ?case using composedBelow_trans child_composed by blast
next
  case (belowShadow p s e)
  then show ?case using composedBelow_trans shadowChild_composed by blast
qed

lemma composed_reachable: "e \<in> set (composedBelow root) \<Longrightarrow> reachable root e"
proof (induction root arbitrary: e rule: composedBelow.induct)
  case (1 i t sr cs)
  let ?n = "Node i t sr cs"
  have step: "reachable ?n e" if c: "reachable ?n c" and e: "e = c \<or> e \<in> set (composedBelow c)"
      and ih: "\<And>x. x \<in> set (composedBelow c) \<Longrightarrow> reachable c x" for c
  proof (cases "e = c")
    case True with c show ?thesis by simp
  next
    case False
    with e ih have "reachable c e" by simp
    then show ?thesis using c
      by (induction rule: reachable.induct) (auto intro: reachable.intros)
  qed
  from "1.prems" consider s c where "sr = Some s" "c \<in> set (children s)" "e = c \<or> e \<in> set (composedBelow c)"
    | c where "c \<in> set cs" "e = c \<or> e \<in> set (composedBelow c)"
    by (auto split: option.splits)
  then show ?case
  proof cases
    case 1
    have "reachable ?n c" using 1 by (auto intro: reachable.shadowChild)
    then show ?thesis using 1 "1.IH"(1) step by blast
  next
    case 2
    have "reachable ?n c" using 2 by (auto intro: reachable.child)
    then show ?thesis using 2 "1.IH"(2) step by blast
  qed
qed


lemma concat_map_split:
  "c \<in> set cs \<Longrightarrow> \<exists>xs ys. concat (map f cs) = xs @ f c @ ys"
proof -
  assume "c \<in> set cs"
  then obtain as bs where "cs = as @ c # bs" by (auto dest: split_list)
  then have "concat (map f cs) = concat (map f as) @ f c @ concat (map f bs)" by simp
  then show ?thesis by blast
qed

lemma composedBelow_block:
  "c \<in> set (children n) \<or> (\<exists>s. shadowRoot n = Some s \<and> c \<in> set (children s)) \<Longrightarrow>
   \<exists>xs ys. composedBelow n = xs @ (c # composedBelow c) @ ys"
proof (erule disjE)
  assume "c \<in> set (children n)"
  from concat_map_split [OF this, of "\<lambda>c. c # composedBelow c"]
  obtain xs ys where "concat (map (\<lambda>c. c # composedBelow c) (children n)) = xs @ (c # composedBelow c) @ ys"
    by blast
  then have "composedBelow n =
      ((case shadowRoot n of None \<Rightarrow> [] | Some s \<Rightarrow> concat (map (\<lambda>c. c # composedBelow c) (children s))) @ xs)
      @ (c # composedBelow c) @ ys"
    by (subst composedBelow_unfold) simp
  then show ?thesis by blast
next
  assume "\<exists>s. shadowRoot n = Some s \<and> c \<in> set (children s)"
  then obtain s where s: "shadowRoot n = Some s" "c \<in> set (children s)" by blast
  from concat_map_split [OF s(2), of "\<lambda>c. c # composedBelow c"]
  obtain xs ys where "concat (map (\<lambda>c. c # composedBelow c) (children s)) = xs @ (c # composedBelow c) @ ys"
    by blast
  with s(1) have "composedBelow n =
      xs @ (c # composedBelow c) @ (ys @ concat (map (\<lambda>c. c # composedBelow c) (children n)))"
    by (subst composedBelow_unfold) simp
  then show ?thesis by blast
qed

lemma composedBelow_segment:
  "reachable root e \<Longrightarrow> \<exists>xs ys. composedBelow root = xs @ (e # composedBelow e) @ ys"
proof (induction rule: reachable.induct)
  case (child e)
  then show ?case by (intro composedBelow_block) simp
next
  case (shadowChild s e)
  then show ?case by (intro composedBelow_block) simp
next
  case (below p e)
  then obtain xs ys where r: "composedBelow root = xs @ (p # composedBelow p) @ ys" by blast
  from below(2) composedBelow_block [of e p]
  obtain us vs where "composedBelow p = us @ (e # composedBelow e) @ vs" by blast
  with r have "composedBelow root = (xs @ p # us) @ (e # composedBelow e) @ (vs @ ys)" by simp
  then show ?case by blast
next
  case (belowShadow p s e)
  then obtain xs ys where r: "composedBelow root = xs @ (p # composedBelow p) @ ys" by blast
  from belowShadow(2,3) composedBelow_block [of e p]
  obtain us vs where "composedBelow p = us @ (e # composedBelow e) @ vs" by blast
  with r have "composedBelow root = (xs @ p # us) @ (e # composedBelow e) @ (vs @ ys)" by simp
  then show ?case by blast
qed

lemma gather_unfiltered: "gatherAllElementsXFind h None root = Inr (composedBelow root)"
  by (simp add: gatherAllElementsXFind_def gather_elements)

lemma gather_filtered:
  "s \<noteq> [] \<Longrightarrow> validSelector h s \<Longrightarrow>
   gatherAllElementsXFind h (Some s) root = Inr (filter (\<lambda>e. nativeMatches h e s) (composedBelow root))"
  by (simp add: gatherAllElementsXFind_def gather_elements elMatches_def filterE_total)

text \<open>
  C7. Without a filter the collector returns the elements below the root in the order of
  \<open>composedBelow\<close>: the contents of the root's own sub-tree first, then its own tree, each
  element immediately followed by what lies below it, the contents of the sub-tree it
  owns first. These are exactly the elements reachable from the root through children and
  sub-tree boundaries. With a filter selector, the elements that natively match it are
  retained, in the same order.
\<close>

theorem gatherAllElementsXFind_collects:
  "gatherAllElementsXFind h None root = Inr (composedBelow root)
   \<and> composedBelow root =
       (case shadowRoot root of
          None \<Rightarrow> []
        | Some s \<Rightarrow> concat (map (\<lambda>c. c # composedBelow c) (children s))) @
       concat (map (\<lambda>c. c # composedBelow c) (children root))
   \<and> (\<forall>e. (e \<in> set (composedBelow root)) = reachable root e)
   \<and> (\<forall>e. reachable root e \<longrightarrow> (\<exists>xs ys. composedBelow root = xs @ (e # composedBelow e) @ ys))
   \<and> (\<forall>s. s \<noteq> [] \<and> validSelector h s \<longrightarrow>
         gatherAllElementsXFind h (Some s) root
           = Inr (filter (\<lambda>e. nativeMatches h e s) (composedBelow root)))"
proof (intro conjI allI impI)
  show "gatherAllElementsXFind h None root = Inr (composedBelow root)"
    by (rule gather_unfiltered)
  show "composedBelow root =
       (case shadowRoot root of
          None \<Rightarrow> []
        | Some s \<Rightarrow> concat (map (\<lambda>c. c # composedBelow c) (children s))) @
       concat (map (\<lambda>c. c # composedBelow c) (children root))"
    by (rule composedBelow_unfold)
  show "(e \<in> set (composedBelow root)) = reachable root e" for e
    using reachable_composed composed_reachable by blast
  show "\<exists>xs ys. composedBelow root = xs @ (e # composedBelow e) @ ys" if "reachable root e" for e
    using that by (rule composedBelow_segment)
  show "gatherAllElementsXFind h (Some s) root
           = Inr (filter (\<lambda>e. nativeMatches h e s) (composedBelow root))"
    if "s \<noteq> [] \<and> validSelector h s" for s
    using that by (simp add: gather_filtered)
qed

lemma composedBelow_exDocument:
  "composedBelow exDocument = [exHtml, exHead, exDiv, exSpan, exB5, exP, exA, exB]"
  by (simp add: ex_defs)

theorem gatherAllElementsXFind_collects_witness:
  "reachable exDocument exSpan
   \<and> js ''b'' \<noteq> [] \<and> validSelector exHost (js ''b'')
   \<and> gatherAllElementsXFind exHost None exDocument
       = Inr [exHtml, exHead, exDiv, exSpan, exB5, exP, exA, exB]
   \<and> (\<exists>xs ys. composedBelow exDocument = xs @ (exSpan # composedBelow exSpan) @ ys)
   \<and> gatherAllElementsXFind exHost (Some (js ''b'')) exDocument = Inr [exB5, exB]"
proof -
  have r: "reachable exDocument exSpan"
  proof -
    have "reachable exDocument exHtml" by (rule reachable.child) (simp add: ex_defs)
    then have "reachable exDocument exDiv" by (rule reachable.below) (simp add: ex_defs)
    then show ?thesis
      by (rule reachable.belowShadow [where s = exShadow]) (simp_all add: ex_defs)
  qed
  have v: "js ''b'' \<noteq> [] \<and> validSelector exHost (js ''b'')"
    by (simp add: exHost_defs)
  have f: "filter (\<lambda>e. nativeMatches exHost e (js ''b'')) [exHtml, exHead, exDiv, exSpan, exB5, exP, exA, exB]
         = [exB5, exB]"
    by (simp add: exHost_defs ex_defs)
  note T = gatherAllElementsXFind_collects [of exHost exDocument]
  from T have a: "gatherAllElementsXFind exHost None exDocument = Inr (composedBelow exDocument)"
    by (rule conjunct1)
  from T have "\<forall>e. reachable exDocument e \<longrightarrow>
      (\<exists>xs ys. composedBelow exDocument = xs @ (e # composedBelow e) @ ys)"
    by (elim conjE)
  with r have seg: "\<exists>xs ys. composedBelow exDocument = xs @ (exSpan # composedBelow exSpan) @ ys"
    by blast
  from T have "\<forall>s. s \<noteq> [] \<and> validSelector exHost s \<longrightarrow>
      gatherAllElementsXFind exHost (Some s) exDocument
        = Inr (filter (\<lambda>e. nativeMatches exHost e s) (composedBelow exDocument))"
    by (elim conjE)
  with v have "gatherAllElementsXFind exHost (Some (js ''b'')) exDocument
        = Inr (filter (\<lambda>e. nativeMatches exHost e (js ''b'')) (composedBelow exDocument))"
    by blast
  then have fl: "gatherAllElementsXFind exHost (Some (js ''b'')) exDocument = Inr [exB5, exB]"
    by (simp only: composedBelow_exDocument f)
  from a have a': "gatherAllElementsXFind exHost None exDocument
       = Inr [exHtml, exHead, exDiv, exSpan, exB5, exP, exA, exB]"
    by (simp only: composedBelow_exDocument)
  from r v a' seg fl show ?thesis by blast
qed


section \<open>Properties of the ancestor-chain matcher\<close>

lemma component_nat: "k < length rs \<Longrightarrow> component rs (int k) = Some (rs ! k)"
  by (simp add: component_def)

lemma isMatch_invalid:
  "\<not> validSelector h c \<Longrightarrow> isMatch h e (Some c) \<noteq> Inr True"
  by (simp add: isMatch_def elMatches_def selectorArg_def)

lemma loop_invalid:
  "k < length rs \<Longrightarrow> \<not> validSelector h (rs ! k) \<Longrightarrow> position = int k \<Longrightarrow>
   matchElements_loop h rs root position cur \<noteq> Inr True"
proof (induction h rs root position cur rule: matchElements_loop.induct)
  case (1 h rs root position)
  then show ?case by simp
next
  case (2 h rs root position e)
  have m: "isMatch h e (Some (rs ! k)) \<noteq> Inr True"
    using 2(3) by (rule isMatch_invalid)
  show ?case
  proof (cases "isMatch h e (Some (rs ! k))")
    case (Inl err)
    with 2(2,4) show ?thesis by (simp add: matchElements_body_def component_nat)
  next
    case (Inr b)
    with m have b: "\<not> b" by simp
    have body: "matchElements_body h rs root position e = Continue position (getParentOrHost h e root)"
      using Inr b 2(2,4) by (simp add: matchElements_body_def component_nat)
    from 2(1) [OF body 2(2,3,4)] body show ?thesis by simp
  qed
qed

lemma loop_sound:
  "matchElements_loop h rs root position cur = Inr True \<Longrightarrow> position = int k \<Longrightarrow> k < length rs \<Longrightarrow>
   shadowRoot root = None \<Longrightarrow>
   \<exists>e. cur = Some e \<and> greedyWalk h rs root k e"
proof (induction h rs root position cur arbitrary: k rule: matchElements_loop.induct)
  case (1 h rs root position)
  then show ?case by simp
next
  case (2 h rs root position e)
  have c: "component rs position = Some (rs ! k)"
    using 2(3,4) component_nat by simp
  have par: "getParentOrHost h e root = hostCrossingParent h e root"
    using 2(5) by (rule getParentOrHost_unowned)
  show ?case
  proof (cases "isMatch h e (Some (rs ! k))")
    case (Inl err)
    with 2(2) c show ?thesis by (simp add: matchElements_body_def)
  next
    case (Inr m)
    show ?thesis
    proof (cases m)
      case True
      then have nm: "nativelyMatches h e (rs ! k)" using Inr by (simp add: nativelyMatches_def)
      show ?thesis
      proof (cases k)
        case 0
        with nm show ?thesis by (auto intro: greedyWalk.accept)
      next
        case (Suc j)
        then have pos: "position \<noteq> 0" "position - 1 = int j" using 2(3) by simp_all
        have body: "matchElements_body h rs root position e = Continue (int j) (getParentOrHost h e root)"
          using Inr True c pos by (simp add: matchElements_body_def)
        with 2(2) have "matchElements_loop h rs root (int j) (getParentOrHost h e root) = Inr True"
          by simp
        from 2(1) [OF body this refl _ 2(5)] Suc 2(4)
        obtain p where "getParentOrHost h e root = Some p" "greedyWalk h rs root j p" by auto
        with par have "hostCrossingParent h e root = Some p" "greedyWalk h rs root j p" by simp_all
        with nm Suc show ?thesis by (auto intro: greedyWalk.advance)
      qed
    next
      case False
      then have nm: "\<not> nativelyMatches h e (rs ! k)" using Inr by (simp add: nativelyMatches_def)
      have body: "matchElements_body h rs root position e = Continue position (getParentOrHost h e root)"
        using Inr False c by (simp add: matchElements_body_def)
      with 2(2) have "matchElements_loop h rs root position (getParentOrHost h e root) = Inr True"
        by simp
      from 2(1) [OF body this 2(3,4,5)]
      obtain p where "getParentOrHost h e root = Some p" "greedyWalk h rs root k p" by auto
      with par have "hostCrossingParent h e root = Some p" "greedyWalk h rs root k p" by simp_all
      with nm show ?thesis by (auto intro: greedyWalk.skip)
    qed
  qed
qed

lemma loop_complete:
  "greedyWalk h rs root k e \<Longrightarrow> k < length rs \<Longrightarrow> shadowRoot root = None \<Longrightarrow>
   matchElements_loop h rs root (int k) (Some e) = Inr True"
proof (induction rule: greedyWalk.induct)
  case (accept e)
  then show ?case
    by (simp add: matchElements_body_def component_def nativelyMatches_def)
next
  case (advance e k p)
  then have "component rs (int (Suc k)) = Some (rs ! Suc k)" by (intro component_nat)
  moreover have "getParentOrHost h e root = Some p"
    using advance by (simp add: getParentOrHost_unowned)
  ultimately show ?case using advance
    by (simp add: matchElements_body_def nativelyMatches_def)
next
  case (skip e k p)
  have c: "component rs (int k) = Some (rs ! k)" using skip.prems(1) by (rule component_nat)
  have par: "getParentOrHost h e root = Some p"
    using skip by (simp add: getParentOrHost_unowned)
  show ?case
  proof (cases "isMatch h e (Some (rs ! k))")
    case (Inl err)
    then have "\<not> validSelector h (rs ! k)"
      by (auto simp: isMatch_def elMatches_def selectorArg_def split: if_splits)
    with loop_invalid [OF skip.prems(1) this refl, of root "Some p"] skip show ?thesis by simp
  next
    case (Inr m)
    with skip(1) have "\<not> m" by (simp add: nativelyMatches_def)
    with Inr c par skip show ?thesis by (simp add: matchElements_body_def)
  qed
qed

lemma isMatch_valid:
  "validSelector h c \<Longrightarrow> isMatch h e (Some c) = Inr (nodeType e = 1 \<and> nativeMatches h e c)"
  by (simp add: isMatch_def elMatches_def selectorArg_def)

lemma loop_total:
  "\<forall>c \<in> set rs. validSelector h c \<Longrightarrow> 0 \<le> position \<Longrightarrow> position < int (length rs) \<Longrightarrow>
   \<exists>b. matchElements_loop h rs root position cur = Inr b"
proof (induction h rs root position cur rule: matchElements_loop.induct)
  case (1 h rs root position)
  show ?case by (rule exI [of _ False]) simp
next
  case (2 h rs root position e)
  from 2(3,4) obtain c where c: "component rs position = Some c" "c \<in> set rs"
    by (auto simp: component_def)
  define m where "m = (nodeType e = 1 \<and> nativeMatches h e c)"
  have m: "isMatch h e (Some c) = Inr m"
    using 2(2) c(2) by (simp add: isMatch_valid m_def)
  show ?case
  proof (cases "m \<and> position = 0")
    case True
    with m c have "matchElements_loop h rs root position (Some e) = Inr True"
      by (simp add: matchElements_body_def)
    then show ?thesis ..
  next
    case False
    let ?p = "if m then position - 1 else position"
    have body: "matchElements_body h rs root position e = Continue ?p (getParentOrHost h e root)"
      using m c False by (simp add: matchElements_body_def)
    have "0 \<le> ?p" "?p < int (length rs)" using False 2(3,4) by auto
    from 2(1) [OF body 2(2) this] body show ?thesis by simp
  qed
qed


text \<open>
  For a bounding root that owns no sub-tree, the code is the greedy walk of the
  specification: the matcher accepts a candidate exactly when the walk from the candidate,
  with the cursor at the last index, succeeds; when every component is accepted by the
  native grammar, it returns that truth value.
\<close>

lemma matchElements_greedyWalk:
  assumes "components \<noteq> []" and "shadowRoot root = None"
  shows "(matchElements h components (int (length components) - 1) root e = Inr True)
           = greedyWalk h components root (length components - 1) e
       \<and> ((\<forall>c \<in> set components. validSelector h c) \<longrightarrow>
            matchElements h components (int (length components) - 1) root e
              = Inr (greedyWalk h components root (length components - 1) e))"
proof -
  let ?k = "length components - 1"
  have k: "?k < length components" "int (length components) - 1 = int ?k"
    using assms(1) by (cases components, simp_all)+
  have iff: "(matchElements_loop h components root (int ?k) (Some e) = Inr True)
           = greedyWalk h components root ?k e"
    using loop_sound [of h components root "int ?k" "Some e" ?k]
      loop_complete [of h components root ?k e] k(1) assms(2)
    by auto
  moreover have "matchElements_loop h components root (int ?k) (Some e)
              = Inr (greedyWalk h components root ?k e)"
    if "\<forall>c \<in> set components. validSelector h c"
  proof -
    have "0 \<le> int ?k" "int ?k < int (length components)" using k(1) assms(1) by simp_all
    from loop_total [OF that this, of root "Some e"]
    obtain b where "matchElements_loop h components root (int ?k) (Some e) = Inr b" by blast
    with iff show ?thesis by (cases b) simp_all
  qed
  ultimately show ?thesis using assms(1) by (simp add: matchElements_def k(2))
qed

lemma matchElements_greedyWalk_example:
  "matchElements exHost [js ''div'', js ''b''] 1 exDocument exB5 = Inr True
   \<and> greedyWalk exHost [js ''div'', js ''b''] exDocument 1 exB5
   \<and> matchElements exHost [js ''div'', js ''b''] 1 exDocument exB = Inr False
   \<and> \<not> greedyWalk exHost [js ''div'', js ''b''] exDocument 1 exB"
proof -
  have ne: "[js ''div'', js ''b''] \<noteq> []" by simp
  have u: "shadowRoot exDocument = None" by (simp add: ex_defs)
  have v: "\<forall>c \<in> set [js ''div'', js ''b'']. validSelector exHost c"
    by (simp add: exHost_defs)
  have 1: "matchElements exHost [js ''div'', js ''b''] 1 exDocument exB5 = Inr True"
    by (simp add: matchElements_def matchElements_body_def component_def isMatch_def
        elMatches_def selectorArg_def getParentOrHost_def parentNode_def hostOf_def
        exHost_defs ex_defs)
  have 2: "matchElements exHost [js ''div'', js ''b''] 1 exDocument exB = Inr False"
    by (simp add: matchElements_def matchElements_body_def component_def isMatch_def
        elMatches_def selectorArg_def getParentOrHost_def parentNode_def hostOf_def
        exHost_defs ex_defs)
  from matchElements_greedyWalk [OF ne u, of exHost exB5]
    matchElements_greedyWalk [OF ne u, of exHost exB] v 1 2
  show ?thesis by simp
qed

text \<open>
  C2. The matcher is to accept a candidate exactly when the greedy walk succeeds, the
  walk being rejected when it reaches the bounding root. Where the bounding root is the
  host of the sub-tree that holds the candidate, the code does not: for the components
  \<open>html\<close> and \<open>span\<close>, the \<open>div\<close> as the bounding root and the \<open>span\<close> in its
  sub-tree as the candidate, the walk of the specification ends at the \<open>div\<close> without
  accepting, and the code goes on from the \<open>div\<close> to the \<open>html\<close> element above the
  bounding root and accepts.
\<close>

theorem matchElements_passes_bounding_root:
  "hostCrossingParent exHost exSpan exDiv = None
   \<and> \<not> greedyWalk exHost [js ''html'', js ''span''] exDiv 1 exSpan
   \<and> getParentOrHost exHost exSpan exDiv = Some exDiv
   \<and> getParentOrHost exHost exDiv exDiv = Some exHtml
   \<and> matchElements exHost [js ''html'', js ''span''] 1 exDiv exSpan = Inr True"
proof -
  have n: "hostCrossingParent exHost exSpan exDiv = None"
    by (simp add: hostCrossingParent_def resolvedParent_def parentNode_def hostOf_def
        exHost_def ex_defs)
  have w: "\<not> greedyWalk exHost [js ''html'', js ''span''] exDiv 1 exSpan"
  proof
    assume "greedyWalk exHost [js ''html'', js ''span''] exDiv 1 exSpan"
    then show False by cases (simp_all add: n)
  qed
  have p: "getParentOrHost exHost exSpan exDiv = Some exDiv"
      "getParentOrHost exHost exDiv exDiv = Some exHtml"
    by (simp_all add: getParentOrHost_def parentNode_def hostOf_def exHost_def ex_defs)
  have m: "matchElements exHost [js ''html'', js ''span''] 1 exDiv exSpan = Inr True"
    by (simp add: matchElements_def matchElements_body_def component_def isMatch_def
        elMatches_def selectorArg_def getParentOrHost_def parentNode_def hostOf_def
        exHost_defs ex_defs)
  from n w p m show ?thesis by simp
qed




section \<open>Properties of the orchestrator\<close>

lemmas query_defs =
  xfind_def xfindAll_def performQuery_def validateSelector_def querySelectorXFind_def
  querySelectorAllXFind_def queryInShadowDOM_def querySelector_def querySelectorAll_def
  alternativeStep_def refineSelector_def splitByUnquotedCharacter_def matchTokens_def
  splitInit_def splitStep_def appendToLast_def trim_def gatherAllElementsXFind_def
  matchElements_def matchElements_body_def component_def isMatch_def elMatches_def
  selectorArg_def getParentOrHost_def parentNode_def hostOf_def truthy_def ofOption_def
  lengthText_def

lemmas char_defs =
  isLineTerminator_def isWhiteSpace_def isSpaceClass_def isCombinator_def
  BACKSLASH_def DQUOTE_def SQUOTE_def COMMA_def SPACE_def GT_def PLUS_def TILDE_def

text \<open>
  C4. A selector that the native grammar rejects makes both entry points raise the
  InvalidSelector error, before anything is queried or logged; the empty string, which
  the host rejects, is such a selector.
\<close>

theorem invalid_selector_raised:
  assumes "\<not> validSelector h selector"
  shows "xfind h selector root out = (Inl (InvalidSelector selector), out)
       \<and> xfindAll h selector root out = (Inl (InvalidSelector selector), out)"
  using assms by (simp add: xfind_def xfindAll_def performQuery_def validateSelector_def)

theorem invalid_selector_raised_witness:
  "\<not> validSelector exHost []
   \<and> xfind exHost [] exDocument [] = (Inl (InvalidSelector []), [])
   \<and> xfindAll exHost [] exDocument [] = (Inl (InvalidSelector []), [])"
proof -
  have h: "\<not> validSelector exHost []" by (simp add: exHost_defs)
  from invalid_selector_raised [OF h, of exDocument "[]"] h show ?thesis by simp
qed

lemma performQuery_loop_console:
  "fst (performQuery_loop h findMany stages current out)
     = fst (performQuery_loop h findMany stages current out')"
  by (induction h findMany stages current out rule: performQuery_loop.induct)
     (auto split: sum.splits result.splits)

lemma performQuery_console:
  "fst (performQuery h selector findMany root out) = fst (performQuery h selector findMany root out')"
  using performQuery_loop_console [of h findMany "splitBoundary selector" root out out']
  by (simp add: performQuery_def split: sum.splits)

lemma xfindAll_console:
  "fst (xfindAll h selector root out) = fst (xfindAll h selector root out')"
  using performQuery_console [of h selector True root out out']
  by (auto simp: xfindAll_def split: prod.splits sum.splits)

text \<open>
  C8. The tree is not changed by a query, whose only effect is on the console. The second
  of two successive calls of \<open>xfindAll\<close>, run on the console that the first has left,
  returns what the first has returned: the same elements in the same order, or the same
  error.
\<close>

theorem xfindAll_deterministic:
  "fst (xfindAll h selector root (snd (xfindAll h selector root out)))
     = fst (xfindAll h selector root out)"
  by (rule xfindAll_console)

lemma performQuery_loop_earlier:
  "resolveStages h earlier root = Some current \<Longrightarrow> rest \<noteq> [] \<Longrightarrow>
   performQuery_loop h findMany (earlier @ rest) root out
     = performQuery_loop h findMany rest current out"
  by (induction earlier arbitrary: root) (auto split: sum.splits result.splits)

lemma performQuery_loop_not_found:
  assumes "resolveStages h earlier root = Some current"
      and "querySelectorXFind h stage current = Inr Null"
      and "later \<noteq> []"
  shows "performQuery_loop h findMany (earlier @ stage # later) root out
       = (Inr (if findMany then Elements [] else Null),
          out @ [ConsoleError (js ''Selector '' @ stage @ js '' not found'')])"
  using assms performQuery_loop_earlier [OF assms(1), of "stage # later" findMany out]
  by simp

text \<open>
  C3. When an intermediate stage of a multi-stage selector resolves to no element,
  \<open>performQuery\<close> is to return \<open>null\<close> or the empty array, with a line on the
  console and no exception. The loop over the stages does so: it returns at the failed
  stage whatever the later stages are. But \<open>performQuery\<close> gives the whole string,
  boundary markers included, to the native validator first, which rejects it, so that the
  loop is never reached: for \<open>missing>>>target\<close>, whose first stage finds nothing, the
  code raises the InvalidSelector error in both modes and writes nothing.
\<close>

theorem performQuery_rejects_staged_selector:
  "splitBoundary (js ''missing>>>target'') = [js ''missing'', js ''target'']
   \<and> querySelectorXFind exHost (js ''missing'') exDocument = Inr Null
   \<and> performQuery_loop exHost False [js ''missing'', js ''target''] exDocument []
       = (Inr Null, [ConsoleError (js ''Selector missing not found'')])
   \<and> performQuery_loop exHost True [js ''missing'', js ''target''] exDocument []
       = (Inr (Elements []), [ConsoleError (js ''Selector missing not found'')])
   \<and> validSelector exHost (js ''missing>>>target'') = False
   \<and> performQuery exHost (js ''missing>>>target'') False exDocument []
       = (Inl (InvalidSelector (js ''missing>>>target'')), [])
   \<and> performQuery exHost (js ''missing>>>target'') True exDocument []
       = (Inl (InvalidSelector (js ''missing>>>target'')), [])"
proof -
  have s: "splitBoundary (js ''missing>>>target'') = [js ''missing'', js ''target'']"
    by (simp add: js_def GT_def)
  have n: "querySelectorXFind exHost (js ''missing'') exDocument = Inr Null"
    by (simp add: query_defs exHost_defs ex_defs char_defs)
  have r: "resolveStages exHost [] exDocument = Some exDocument" by simp
  have m: "js ''Selector '' @ js ''missing'' @ js '' not found'' = js ''Selector missing not found''"
    by (simp add: js_def)
  have l: "performQuery_loop exHost findMany [js ''missing'', js ''target''] exDocument []
       = (Inr (if findMany then Elements [] else Null),
          [ConsoleError (js ''Selector missing not found'')])" for findMany
    using performQuery_loop_not_found [OF r n, of "[js ''target'']" findMany "[]"]
    by (simp add: m)
  have v: "validSelector exHost (js ''missing>>>target'') = False"
    by (simp add: exHost_defs)
  have p: "performQuery exHost (js ''missing>>>target'') findMany exDocument []
       = (Inl (InvalidSelector (js ''missing>>>target'')), [])" for findMany
    using v by (simp add: performQuery_def validateSelector_def)
  from s n l [of False] l [of True] v p [of False] p [of True] show ?thesis by simp
qed


section \<open>Agreement with the native queries\<close>


lemma plain_noBoundary: "list_all plainChar s \<Longrightarrow> \<not> containsBoundary s"
  by (induction s) (auto simp: plainChar_def isCombinator_def)


























end
